theory Spec2Isabelle
  imports Complex_Main "HOL-Library.Sublist"
begin

section \<open>Canonical signals and the alias table\<close>

text \<open>
  The keys of \<open>COLUMN_MAP\<close> in \<open>main.py\<close> are the four canonical signal names. They are
  an enumeration; \<open>signal_name\<close> gives the Python string of each key, which is also the
  string the classifier appends to \<open>triggered\<close>.
\<close>

datatype signal = heart_rate | spo2 | systolic_bp | diastolic_bp

fun signal_name :: "signal \<Rightarrow> string" where
  "signal_name heart_rate = ''heart_rate''"
| "signal_name spo2 = ''spo2''"
| "signal_name systolic_bp = ''systolic_bp''"
| "signal_name diastolic_bp = ''diastolic_bp''"

text \<open>The dict literal \<open>COLUMN_MAP\<close>, in its insertion order.\<close>

definition COLUMN_MAP :: "(signal \<times> string list) list" where
  "COLUMN_MAP =
    [(heart_rate, [''hr'', ''heart rate'', ''heartrate'', ''heart_rate'']),
     (spo2, [''spo2'', ''sp02'', ''oxygen'', ''blood oxygen'', ''o2'']),
     (systolic_bp, [''sys'', ''systolic'', ''systolic bp'', ''sbp'']),
     (diastolic_bp, [''dia'', ''diastolic'', ''diastolic bp'', ''dbp''])]"

section \<open>Python strings and dicts\<close>

text \<open>
  Headers are strings over the code points 0..255. \<open>str.strip()\<close> removes the characters
  for which \<open>str.isspace()\<close> holds from both ends; in this range they are U+0009..U+000D,
  U+001C..U+001F, U+0020, U+0085 and U+00A0. \<open>str.lower()\<close> maps A..Z, and the upper-case
  letters U+00C0..U+00DE other than U+00D7, to the code point 32 above.
\<close>

definition py_isspace :: "char \<Rightarrow> bool" where
  "py_isspace c =
    (c \<in> set [CHR 0x09, CHR 0x0A, CHR 0x0B, CHR 0x0C, CHR 0x0D, CHR 0x1C, CHR 0x1D,
               CHR 0x1E, CHR 0x1F, CHR 0x20, CHR 0x85, CHR 0xA0])"

definition py_strip :: "string \<Rightarrow> string" where
  "py_strip s = rev (dropWhile py_isspace (rev (dropWhile py_isspace s)))"

definition py_lower_char :: "char \<Rightarrow> char" where
  "py_lower_char c =
    (let n = (of_char c :: nat) in
     if (65 \<le> n \<and> n \<le> 90) \<or> (192 \<le> n \<and> n \<le> 222 \<and> n \<noteq> 215)
     then char_of (n + 32) else c)"

definition py_lower :: "string \<Rightarrow> string" where
  "py_lower s = map py_lower_char s"

text \<open>
  A Python dict keeps its keys in insertion order; assigning to a key that is already
  present replaces the value and leaves the key where it is.
\<close>

fun dict_set :: "('k \<times> 'v) list \<Rightarrow> 'k \<Rightarrow> 'v \<Rightarrow> ('k \<times> 'v) list" where
  "dict_set [] k v = [(k, v)]"
| "dict_set ((k', v') # d) k v =
    (if k' = k then (k, v) # d else (k', v') # dict_set d k v)"

fun join :: "string \<Rightarrow> string list \<Rightarrow> string" where
  "join sep [] = []"
| "join sep [x] = x"
| "join sep (x # y # ys) = x @ sep @ join sep (y # ys)"

section \<open>The table\<close>

text \<open>
  The \<open>DataFrame\<close> that \<open>pd.read_csv\<close> hands over: the header labels in table order and
  the rows in input order, each row with its index label and its cells. With the default
  \<open>RangeIndex\<close> the label of a row is its position; when the data lines hold one field
  more than the header line, \<open>read_csv\<close> takes the first field of each line as the
  label. A cell is a number, a piece of text, a boolean or missing (\<open>NaN\<close>). Numbers
  are exact rationals: the rounding of binary floating point, infinities and signed zeros
  are not modelled.
  A row with fewer cells than there are headers reads as missing in its trailing
  columns, which is how \<open>read_csv\<close> fills a short line.
\<close>

datatype cell = Num rat | Txt string | Bool bool | NaN

record dataframe =
  columns :: "string list"
  rows :: "(cell \<times> cell list) list"

datatype error = KeyError string | TypeError

fun get_loc :: "string list \<Rightarrow> string \<Rightarrow> nat option" where
  "get_loc [] col = None"
| "get_loc (c # cs) col = (if c = col then Some 0 else map_option Suc (get_loc cs col))"

definition cell_at :: "cell list \<Rightarrow> nat \<Rightarrow> cell" where
  "cell_at r j = (if j < length r then r ! j else NaN)"

definition set_cell :: "cell list \<Rightarrow> nat \<Rightarrow> cell \<Rightarrow> cell list" where
  "set_cell r j v =
    (if j < length r then r[j := v] else r @ replicate (j - length r) NaN @ [v])"

text \<open>\<open>df[col]\<close>: the column as a series, or \<open>KeyError\<close> when no header is \<open>col\<close>.\<close>

definition df_getitem :: "dataframe \<Rightarrow> string \<Rightarrow> error + cell list" where
  "df_getitem df col =
    (case get_loc (columns df) col of
       None \<Rightarrow> Inl (KeyError col)
     | Some j \<Rightarrow> Inr (map (\<lambda>r. cell_at (snd r) j) (rows df)))"

text \<open>\<open>df[col] = series\<close>: replaces the column, or appends a new one when no header is \<open>col\<close>.\<close>

definition df_setitem :: "dataframe \<Rightarrow> string \<Rightarrow> cell list \<Rightarrow> dataframe" where
  "df_setitem df col series =
    (case get_loc (columns df) col of
       Some j \<Rightarrow>
         df\<lparr>rows := map (\<lambda>(r, v). (fst r, set_cell (snd r) j v)) (zip (rows df) series)\<rparr>
     | None \<Rightarrow>
         \<lparr>columns = columns df @ [col],
          rows = map (\<lambda>(r, v). (fst r, set_cell (snd r) (length (columns df)) v))
                   (zip (rows df) series)\<rparr>)"

text \<open>\<open>row[col]\<close> for a row that \<open>df.iterrows()\<close> yields.\<close>

definition row_getitem :: "string list \<Rightarrow> cell list \<Rightarrow> string \<Rightarrow> error + cell" where
  "row_getitem cols r col =
    (case get_loc cols col of None \<Rightarrow> Inl (KeyError col) | Some j \<Rightarrow> Inr (cell_at r j))"

text \<open>
  A series is boolean-typed when it is not empty and holds booleans only: \<open>read_csv\<close>
  gives a column the dtype \<open>bool\<close> when every field of it reads as true or false, and
  \<open>pd.to_numeric\<close> returns a series of booleans as a boolean series.
\<close>

fun is_bool :: "cell \<Rightarrow> bool" where
  "is_bool (Bool b) = True"
| "is_bool c = False"

definition bool_dtype :: "cell list \<Rightarrow> bool" where
  "bool_dtype series = (series \<noteq> [] \<and> list_all is_bool series)"

definition bool_value :: "bool \<Rightarrow> rat" where
  "bool_value b = (if b then 1 else 0)"

text \<open>
  \<open>pd.to_numeric(series, errors="coerce")\<close>. The number parser of pandas is the
  parameter \<open>parse\<close>: text it reads as a number becomes that number, any other text
  becomes \<open>NaN\<close>. A boolean-typed series comes back unchanged; a boolean next to
  numbers, text or missing values becomes 1 or 0.
\<close>

fun to_numeric_cell :: "(string \<Rightarrow> rat option) \<Rightarrow> cell \<Rightarrow> cell" where
  "to_numeric_cell parse (Num v) = Num v"
| "to_numeric_cell parse (Txt s) = (case parse s of Some v \<Rightarrow> Num v | None \<Rightarrow> NaN)"
| "to_numeric_cell parse (Bool b) = Num (bool_value b)"
| "to_numeric_cell parse NaN = NaN"

definition pd_to_numeric :: "(string \<Rightarrow> rat option) \<Rightarrow> cell list \<Rightarrow> cell list" where
  "pd_to_numeric parse series =
    (if bool_dtype series then series else map (to_numeric_cell parse) series)"

definition dropna :: "cell list \<Rightarrow> cell list" where
  "dropna series = filter (\<lambda>c. c \<noteq> NaN) series"

text \<open>
  The numbers of a series for \<open>median\<close> and \<open>quantile\<close>, with booleans cast to 1 and 0;
  a series that still holds text makes them raise \<open>TypeError\<close>.
\<close>

fun series_values :: "cell list \<Rightarrow> error + rat list" where
  "series_values [] = Inr []"
| "series_values (c # cs) =
    (case c of
       Num v \<Rightarrow> (case series_values cs of Inl e \<Rightarrow> Inl e | Inr vs \<Rightarrow> Inr (v # vs))
     | Txt s \<Rightarrow> Inl TypeError
     | Bool b \<Rightarrow>
         (case series_values cs of Inl e \<Rightarrow> Inl e | Inr vs \<Rightarrow> Inr (bool_value b # vs))
     | NaN \<Rightarrow> series_values cs)"

text \<open>
  \<open>median\<close> and \<open>quantile\<close> (linear interpolation, the default) on a non-empty list of
  numbers; the caller has left the loop body before when the series is empty.
  \<open>Series.median()\<close> takes the median of the values of the series.
  \<open>Series.quantile(q)\<close> raises \<open>TypeError\<close> on a boolean-typed series, whose values
  numpy refuses to subtract.
\<close>

definition median :: "rat list \<Rightarrow> rat" where
  "median xs =
    (let ys = sort xs; n = length ys in
     if odd n then ys ! (n div 2) else (ys ! (n div 2 - 1) + ys ! (n div 2)) / 2)"

definition quantile :: "rat list \<Rightarrow> rat \<Rightarrow> rat" where
  "quantile xs q =
    (let ys = sort xs; n = length ys; pos = of_nat (n - 1) * q;
         lo = nat \<lfloor>pos\<rfloor>; hi = min (lo + 1) (n - 1)
     in ys ! lo + (pos - of_nat lo) * (ys ! hi - ys ! lo))"

definition series_median :: "cell list \<Rightarrow> error + rat" where
  "series_median series =
    (case series_values series of Inl e \<Rightarrow> Inl e | Inr vals \<Rightarrow> Inr (median vals))"

definition series_quantile :: "cell list \<Rightarrow> rat \<Rightarrow> error + rat" where
  "series_quantile series q =
    (if bool_dtype series then Inl TypeError
     else case series_values series of Inl e \<Rightarrow> Inl e | Inr vals \<Rightarrow> Inr (quantile vals q))"

section \<open>Column Resolver: \<open>map_columns\<close>\<close>

definition alias_match :: "string list \<Rightarrow> string \<Rightarrow> bool" where
  "alias_match variations col = (py_lower (py_strip col) \<in> set variations)"

text \<open>The inner loop \<open>for col in df.columns\<close> for one entry of \<open>COLUMN_MAP\<close>.\<close>

fun map_columns_cols ::
  "signal \<Rightarrow> string list \<Rightarrow> string list \<Rightarrow> (signal \<times> string) list \<Rightarrow> (signal \<times> string) list" where
  "map_columns_cols standard variations [] mapped = mapped"
| "map_columns_cols standard variations (col # cols) mapped =
    map_columns_cols standard variations cols
      (if alias_match variations col then dict_set mapped standard col else mapped)"

text \<open>The outer loop \<open>for standard, variations in COLUMN_MAP.items()\<close>.\<close>

fun map_columns_items ::
  "(signal \<times> string list) list \<Rightarrow> string list \<Rightarrow> (signal \<times> string) list \<Rightarrow> (signal \<times> string) list" where
  "map_columns_items [] cols mapped = mapped"
| "map_columns_items ((standard, variations) # items) cols mapped =
    map_columns_items items cols (map_columns_cols standard variations cols mapped)"

definition map_columns :: "dataframe \<Rightarrow> (signal \<times> string) list" where
  "map_columns df = map_columns_items COLUMN_MAP (columns df) []"

section \<open>Baseline Estimator: the first loop of \<open>upload_csv\<close>\<close>

text \<open>
  One pass of the body of \<open>for signal, col in column_mapping.items()\<close>. The state is the
  frame (the loop assigns the coerced column back into it) and the two dicts
  \<open>baselines\<close> and \<open>volatility\<close>. \<open>continue\<close> returns the state with the frame updated
  and the dicts as they were.
\<close>

type_synonym estimator_state = "dataframe \<times> (signal \<times> rat) list \<times> (signal \<times> rat) list"

definition baseline_body ::
  "(string \<Rightarrow> rat option) \<Rightarrow> signal \<Rightarrow> string \<Rightarrow> estimator_state \<Rightarrow> error + estimator_state" where
  "baseline_body parse signal col st =
    (case st of (df, baselines, volatility) \<Rightarrow>
     case df_getitem df col of
       Inl e \<Rightarrow> Inl e
     | Inr series \<Rightarrow>
         let df1 = df_setitem df col (pd_to_numeric parse series) in
         case df_getitem df1 col of
           Inl e \<Rightarrow> Inl e
         | Inr series1 \<Rightarrow>
             let clean_series = dropna series1 in
             if clean_series = [] then Inr (df1, baselines, volatility)
             else
               case series_median clean_series of
                 Inl e \<Rightarrow> Inl e
               | Inr baseline \<Rightarrow>
               case series_quantile clean_series (25 / 100) of
                 Inl e \<Rightarrow> Inl e
               | Inr q1 \<Rightarrow>
               case series_quantile clean_series (75 / 100) of
                 Inl e \<Rightarrow> Inl e
               | Inr q3 \<Rightarrow>
                   let iqr = q3 - q1;
                       iqr = (if iqr = 0 then 1 / 1000000 else iqr)
                   in Inr (df1, dict_set baselines signal baseline,
                           dict_set volatility signal iqr))"

fun baseline_loop ::
  "(string \<Rightarrow> rat option) \<Rightarrow> (signal \<times> string) list \<Rightarrow> estimator_state \<Rightarrow> error + estimator_state" where
  "baseline_loop parse [] st = Inr st"
| "baseline_loop parse ((signal, col) # items) st =
    (case baseline_body parse signal col st of
       Inl e \<Rightarrow> Inl e
     | Inr st' \<Rightarrow> baseline_loop parse items st')"

section \<open>Deviation Classifier: the second loop of \<open>upload_csv\<close>\<close>

text \<open>
  The comparison \<open>abs(value - baseline) / baseline > 0.15\<close>. Both operands are
  \<open>numpy.float64\<close>, so a zero baseline does not raise: a positive numerator gives
  \<open>inf\<close>, which exceeds 0.15, and \<open>0 / 0\<close> gives \<open>nan\<close>, which does not.
\<close>

definition heart_rate_exceeds :: "rat \<Rightarrow> rat \<Rightarrow> bool" where
  "heart_rate_exceeds v b =
    (if b = 0 then \<bar>v - b\<bar> > 0 else \<bar>v - b\<bar> / b > 15 / 100)"

text \<open>The \<open>if\<close>/\<open>elif\<close> chain on \<open>signal\<close>, with the \<open>triggered\<close> list passed through.\<close>

fun check_signal :: "signal \<Rightarrow> rat \<Rightarrow> rat \<Rightarrow> string list \<Rightarrow> string list" where
  "check_signal heart_rate v b triggered =
    (if heart_rate_exceeds v b then triggered @ [''heart_rate''] else triggered)"
| "check_signal spo2 v b triggered =
    (if b - v > 2 then triggered @ [''spo2''] else triggered)"
| "check_signal systolic_bp v b triggered =
    (if \<bar>v - b\<bar> > 10 then triggered @ [''systolic_bp''] else triggered)"
| "check_signal diastolic_bp v b triggered =
    (if \<bar>v - b\<bar> > 5 then triggered @ [''diastolic_bp''] else triggered)"

text \<open>
  The loop \<open>for signal, col in column_mapping.items()\<close> for one row. A text cell passes
  \<open>pd.isna\<close> and then fails in the subtraction with \<open>TypeError\<close>; a boolean counts as
  1 or 0 in the subtraction.
\<close>

fun row_loop ::
  "(signal \<times> string) list \<Rightarrow> (signal \<times> rat) list \<Rightarrow> string list \<Rightarrow> cell list \<Rightarrow>
   string list \<Rightarrow> error + string list" where
  "row_loop [] baselines cols r triggered = Inr triggered"
| "row_loop ((signal, col) # items) baselines cols r triggered =
    (case map_of baselines signal of
       None \<Rightarrow> row_loop items baselines cols r triggered
     | Some baseline \<Rightarrow>
         (case row_getitem cols r col of
            Inl e \<Rightarrow> Inl e
          | Inr NaN \<Rightarrow> row_loop items baselines cols r triggered
          | Inr (Txt s) \<Rightarrow> Inl TypeError
          | Inr (Bool b) \<Rightarrow>
              row_loop items baselines cols r
                (check_signal signal (bool_value b) baseline triggered)
          | Inr (Num v) \<Rightarrow>
              row_loop items baselines cols r (check_signal signal v baseline triggered)))"

text \<open>The dict that the loop appends for a row; \<open>row\<close> is the index label of the row.\<close>

record event =
  row :: cell
  signals :: string
  severity :: nat

text \<open>
  The loop \<open>for idx, row in df.iterrows()\<close>: \<open>iterrows\<close> yields each row as the pair of
  its index label and its cells.
\<close>

fun detect_loop ::
  "(signal \<times> string) list \<Rightarrow> (signal \<times> rat) list \<Rightarrow> string list \<Rightarrow> (cell \<times> cell list) list \<Rightarrow>
   event list \<Rightarrow> error + event list" where
  "detect_loop column_mapping baselines cols [] deviation_rows = Inr deviation_rows"
| "detect_loop column_mapping baselines cols ((idx, r) # rest) deviation_rows =
    (case row_loop column_mapping baselines cols r [] of
       Inl e \<Rightarrow> Inl e
     | Inr triggered \<Rightarrow>
         detect_loop column_mapping baselines cols rest
           (if triggered \<noteq> []
            then deviation_rows @
                 [\<lparr>row = idx, signals = join '', '' triggered, severity = length triggered\<rparr>]
            else deviation_rows))"

definition iterrows :: "dataframe \<Rightarrow> (cell \<times> cell list) list" where
  "iterrows df = rows df"

section \<open>Report Aggregator and the pipeline\<close>

text \<open>
  What \<open>upload_csv\<close> has computed when it starts to lay out the PDF: the two dicts, the
  event list and the four summary numbers. The layout itself is not modelled.
\<close>

record report =
  baselines :: "(signal \<times> rat) list"
  volatility :: "(signal \<times> rat) list"
  deviation_rows :: "event list"
  total_rows :: nat
  deviation_count :: nat
  max_severity :: nat
  multi_signal :: nat

text \<open>\<open>max(xs, default=0)\<close>.\<close>

fun max_default :: "nat list \<Rightarrow> nat" where
  "max_default [] = 0"
| "max_default (x # xs) = fold max xs x"

definition upload_csv :: "(string \<Rightarrow> rat option) \<Rightarrow> dataframe \<Rightarrow> error + report" where
  "upload_csv parse df0 =
    (let column_mapping = map_columns df0 in
     case baseline_loop parse column_mapping (df0, [], []) of
       Inl e \<Rightarrow> Inl e
     | Inr (df, bl, vol) \<Rightarrow>
         (case detect_loop column_mapping bl (columns df) (iterrows df) [] of
            Inl e \<Rightarrow> Inl e
          | Inr devs \<Rightarrow>
              Inr \<lparr>baselines = bl, volatility = vol, deviation_rows = devs,
                   total_rows = length (rows df),
                   deviation_count = length devs,
                   max_severity = max_default (map severity devs),
                   multi_signal = length (filter (\<lambda>e. severity e \<ge> 2) devs)\<rparr>))"

section \<open>Notions used to state the properties\<close>

subsection \<open>Column resolution\<close>

text \<open>
  The header that the resolver's loop leaves in the mapping is the last one that
  matches; the specification speaks of the first one. \<open>resolve\<close> is the entry one alias
  list contributes to the mapping.
\<close>

definition last_match :: "string list \<Rightarrow> string list \<Rightarrow> string option" where
  "last_match variations cols = List.find (alias_match variations) (rev cols)"

definition first_match :: "string list \<Rightarrow> string list \<Rightarrow> string option" where
  "first_match variations cols = List.find (alias_match variations) cols"

definition resolve :: "string list \<Rightarrow> signal \<times> string list \<Rightarrow> (signal \<times> string) option" where
  "resolve cols item = map_option (Pair (fst item)) (last_match (snd item) cols)"

subsection \<open>Baselines\<close>

text \<open>
  A signal's valid numeric values: the numbers in its column after coercion, in row
  order. \<open>iqr_of\<close> is Q3 - Q1 of a list of values and \<open>stored_iqr\<close> what the estimator
  stores for it; \<open>est_baseline\<close> and \<open>est_volatility\<close> are the entries that one item of
  the column mapping adds to the two dicts.
\<close>

definition numeric_at :: "(string \<Rightarrow> rat option) \<Rightarrow> nat \<Rightarrow> cell list \<Rightarrow> rat option" where
  "numeric_at parse j r = (case to_numeric_cell parse (cell_at r j) of Num v \<Rightarrow> Some v | _ \<Rightarrow> None)"

definition column_values :: "(string \<Rightarrow> rat option) \<Rightarrow> dataframe \<Rightarrow> string \<Rightarrow> rat list" where
  "column_values parse df col =
    (case get_loc (columns df) col of
       None \<Rightarrow> []
     | Some j \<Rightarrow> List.map_filter (\<lambda>r. numeric_at parse j (snd r)) (rows df))"

definition iqr_of :: "rat list \<Rightarrow> rat" where
  "iqr_of vals = quantile vals (75 / 100) - quantile vals (25 / 100)"

definition stored_iqr :: "rat list \<Rightarrow> rat" where
  "stored_iqr vals = (if iqr_of vals = 0 then 1 / 1000000 else iqr_of vals)"

definition est_baseline :: "(string \<Rightarrow> rat option) \<Rightarrow> dataframe \<Rightarrow> signal \<times> string \<Rightarrow> (signal \<times> rat) option" where
  "est_baseline parse df item =
    (let vals = column_values parse df (snd item) in
     if vals = [] then None else Some (fst item, median vals))"

definition est_volatility :: "(string \<Rightarrow> rat option) \<Rightarrow> dataframe \<Rightarrow> signal \<times> string \<Rightarrow> (signal \<times> rat) option" where
  "est_volatility parse df item =
    (let vals = column_values parse df (snd item) in
     if vals = [] then None else Some (fst item, stored_iqr vals))"

subsection \<open>Boolean-typed columns\<close>

text \<open>
  The column at position \<open>j\<close>, and the column under the header \<open>col\<close>, is boolean-typed;
  and no column that the resolver maps a signal to is boolean-typed.
\<close>

definition bool_col :: "dataframe \<Rightarrow> nat \<Rightarrow> bool" where
  "bool_col df j = bool_dtype (map (\<lambda>r. cell_at (snd r) j) (rows df))"

definition bool_typed :: "dataframe \<Rightarrow> string \<Rightarrow> bool" where
  "bool_typed df col = (case get_loc (columns df) col of None \<Rightarrow> False | Some j \<Rightarrow> bool_col df j)"

definition no_bool_mapped :: "dataframe \<Rightarrow> bool" where
  "no_bool_mapped df = list_all (\<lambda>item. \<not> bool_typed df (snd item)) (map_columns df)"

subsection \<open>The frame while the estimator runs\<close>

text \<open>
  The estimator overwrites columns of the frame. \<open>frame_rel parse J df' df\<close> relates the
  frame \<open>df'\<close> it has reached to the frame \<open>df\<close> it started from: same headers, row by
  row the same label, the cells at the positions \<open>J\<close> coerced and the other cells as
  they were.
\<close>

definition coerce_row :: "(string \<Rightarrow> rat option) \<Rightarrow> nat \<Rightarrow> cell \<times> cell list \<Rightarrow> cell \<times> cell list" where
  "coerce_row parse j r = (fst r, set_cell (snd r) j (to_numeric_cell parse (cell_at (snd r) j)))"

definition row_rel ::
  "(string \<Rightarrow> rat option) \<Rightarrow> nat set \<Rightarrow> cell \<times> cell list \<Rightarrow> cell \<times> cell list \<Rightarrow> bool" where
  "row_rel parse J r' r =
    (fst r' = fst r \<and>
     (\<forall>k. cell_at (snd r') k =
          (if k \<in> J then to_numeric_cell parse (cell_at (snd r) k) else cell_at (snd r) k)))"

definition frame_rel :: "(string \<Rightarrow> rat option) \<Rightarrow> nat set \<Rightarrow> dataframe \<Rightarrow> dataframe \<Rightarrow> bool" where
  "frame_rel parse J df' df =
    (columns df' = columns df \<and> list_all2 (row_rel parse J) (rows df') (rows df))"

definition locs :: "string list \<Rightarrow> (signal \<times> string) list \<Rightarrow> nat set" where
  "locs cols items = {j. \<exists>item \<in> set items. get_loc cols (snd item) = Some j}"

subsection \<open>Trigger conditions and events\<close>

text \<open>
  \<open>triggers s v b\<close>: the \<open>if\<close>/\<open>elif\<close> chain appends the signal \<open>s\<close> for the value \<open>v\<close> and
  the baseline \<open>b\<close>. \<open>spec_trigger\<close> is the table of the specification, section 4.3, read
  in the rationals.
\<close>

definition triggers :: "signal \<Rightarrow> rat \<Rightarrow> rat \<Rightarrow> bool" where
  "triggers s v b = (check_signal s v b [] \<noteq> [])"

fun spec_trigger :: "signal \<Rightarrow> rat \<Rightarrow> rat \<Rightarrow> bool" where
  "spec_trigger heart_rate v b = (\<bar>v - b\<bar> / b > 15 / 100)"
| "spec_trigger spo2 v b = (b - v > 2)"
| "spec_trigger systolic_bp v b = (\<bar>v - b\<bar> > 10)"
| "spec_trigger diastolic_bp v b = (\<bar>v - b\<bar> > 5)"

text \<open>
  \<open>row_satisfied parse df bl r s\<close>: for the cells \<open>r\<close> of a row of the input table \<open>df\<close>, the
  signal \<open>s\<close> has a resolved column and a baseline in \<open>bl\<close>, the cell of the row in that
  column coerces to a number, and the trigger condition of \<open>s\<close> holds for that number and
  the baseline. \<open>satisfied parse df bl i s\<close> says this of the row at position \<open>i\<close> of the
  table. \<open>row_event\<close> is the event of a row, if any, and \<open>pipeline_report\<close> the report as
  a function of the input table.
\<close>

definition item_hit :: "(signal \<times> rat) list \<Rightarrow> string list \<Rightarrow> cell list \<Rightarrow> signal \<times> string \<Rightarrow> bool" where
  "item_hit bl cols r item =
    (case map_of bl (fst item) of
       None \<Rightarrow> False
     | Some b \<Rightarrow>
         (case row_getitem cols r (snd item) of
            Inr (Num v) \<Rightarrow> triggers (fst item) v b
          | Inr (Bool x) \<Rightarrow> triggers (fst item) (bool_value x) b
          | _ \<Rightarrow> False))"

definition make_event :: "cell \<Rightarrow> string list \<Rightarrow> event option" where
  "make_event idx tr =
    (if tr \<noteq> [] then Some \<lparr>row = idx, signals = join '', '' tr, severity = length tr\<rparr> else None)"

definition canonical_signals :: "signal list" where
  "canonical_signals = [heart_rate, spo2, systolic_bp, diastolic_bp]"

definition row_satisfied ::
  "(string \<Rightarrow> rat option) \<Rightarrow> dataframe \<Rightarrow> (signal \<times> rat) list \<Rightarrow> cell list \<Rightarrow> signal \<Rightarrow> bool" where
  "row_satisfied parse df bl r s =
    (case map_of (map_columns df) s of
       None \<Rightarrow> False
     | Some col \<Rightarrow>
        (case map_of bl s of
           None \<Rightarrow> False
         | Some b \<Rightarrow>
            (case get_loc (columns df) col of
               None \<Rightarrow> False
             | Some j \<Rightarrow>
                (case numeric_at parse j r of
                   None \<Rightarrow> False
                 | Some v \<Rightarrow> triggers s v b))))"

definition satisfied ::
  "(string \<Rightarrow> rat option) \<Rightarrow> dataframe \<Rightarrow> (signal \<times> rat) list \<Rightarrow> nat \<Rightarrow> signal \<Rightarrow> bool" where
  "satisfied parse df bl i s = row_satisfied parse df bl (snd (rows df ! i)) s"

definition row_event ::
  "(string \<Rightarrow> rat option) \<Rightarrow> dataframe \<Rightarrow> (signal \<times> rat) list \<Rightarrow> cell \<times> cell list \<Rightarrow> event option" where
  "row_event parse df bl r =
    make_event (fst r) (map signal_name (filter (row_satisfied parse df bl (snd r)) canonical_signals))"

definition pipeline_report :: "(string \<Rightarrow> rat option) \<Rightarrow> dataframe \<Rightarrow> report" where
  "pipeline_report parse df =
    (let bl = List.map_filter (est_baseline parse df) (map_columns df);
         vol = List.map_filter (est_volatility parse df) (map_columns df);
         devs = List.map_filter (row_event parse df bl) (rows df)
     in \<lparr>baselines = bl, volatility = vol, deviation_rows = devs,
         total_rows = length (rows df),
         deviation_count = length devs,
         max_severity = max_default (map severity devs),
         multi_signal = length (filter (\<lambda>e. severity e \<ge> 2) devs)\<rparr>)"

subsection \<open>Tables to evaluate on\<close>

text \<open>
  Five rows with an identifier, heart rate, oxygen saturation, a systolic column that
  holds only text, and a note; two rows are short, and the labels are the positions.
  The parser reads the text \<open>98\<close> as a number and nothing else.
\<close>

definition example_parse :: "string \<Rightarrow> rat option" where
  "example_parse s = (if s = ''98'' then Some 98 else None)"

definition example_frame :: dataframe where
  "example_frame =
    \<lparr>columns = [''id'', '' HR '', ''SpO2'', ''sys'', ''note''],
     rows =
      [(Num 0, [Txt ''a'', Num 100, Num 98, Txt ''x'', NaN]),
       (Num 1, [Txt ''b'', Num 100, Num 98, Txt ''y'']),
       (Num 2, [Txt ''c'', Num 100, Txt ''98'', NaN, Txt ''q'']),
       (Num 3, [Txt ''d'', Txt ''bad'', Num 95]),
       (Num 4, [Txt ''e'', Num 130, Num 94, Txt ''z'', Txt ''w''])]\<rparr>"

definition example_report :: report where
  "example_report =
    \<lparr>baselines = [(heart_rate, 100), (spo2, 98)],
     volatility = [(heart_rate, 15 / 2), (spo2, 3)],
     deviation_rows =
       [\<lparr>row = Num 3, signals = ''spo2'', severity = 1\<rparr>,
        \<lparr>row = Num 4, signals = ''heart_rate, spo2'', severity = 2\<rparr>],
     total_rows = 5, deviation_count = 2, max_severity = 2, multi_signal = 1\<rparr>"

text \<open>
  A table whose headers come in the reverse of the canonical order, whose rows are
  labelled by their first field, and whose last row deviates in all four signals; a
  table whose only column has a positive interquartile range below \<open>1e-6\<close>; with each,
  the report that the pipeline returns for it. Last, a table with a text column for the
  heart rate and a boolean-typed column for the oxygen saturation.
\<close>

definition reversed_frame :: dataframe where
  "reversed_frame =
    \<lparr>columns = [''DBP'', ''Systolic'', ''o2'', ''Heart Rate''],
     rows =
      [(Txt ''mon'', [Num 80, Num 120, Num 98, Num 70]),
       (Txt ''tue'', [Num 80, Num 120, Num 98, Num 70]),
       (Txt ''wed'', [Num 80, Num 120, Num 98, Num 70]),
       (Txt ''thu'', [Num 90, Num 140, Num 90, Num 100])]\<rparr>"

definition reversed_report :: report where
  "reversed_report =
    \<lparr>baselines = [(heart_rate, 70), (spo2, 98), (systolic_bp, 120), (diastolic_bp, 80)],
     volatility = [(heart_rate, 15 / 2), (spo2, 2), (systolic_bp, 5), (diastolic_bp, 5 / 2)],
     deviation_rows =
       [\<lparr>row = Txt ''thu'', signals = ''heart_rate, spo2, systolic_bp, diastolic_bp'',
         severity = 4\<rparr>],
     total_rows = 4, deviation_count = 1, max_severity = 4, multi_signal = 1\<rparr>"

definition tiny_spread_frame :: dataframe where
  "tiny_spread_frame =
    \<lparr>columns = [''hr''],
     rows = [(Num 0, [Num 70]), (Num 1, [Num 70]), (Num 2, [Num 70]),
             (Num 3, [Num (70000001 / 1000000)])]\<rparr>"

definition tiny_spread_report :: report where
  "tiny_spread_report =
    \<lparr>baselines = [(heart_rate, 70)], volatility = [(heart_rate, 1 / 4000000)],
     deviation_rows = [], total_rows = 4, deviation_count = 0, max_severity = 0,
     multi_signal = 0\<rparr>"

definition bool_frame :: dataframe where
  "bool_frame =
    \<lparr>columns = [''hr'', ''o2''],
     rows = [(Num 0, [Txt ''x'', Bool True]), (Num 1, [Txt ''y'', Bool False])]\<rparr>"

section \<open>The resolver, the estimator and the classifier in closed form\<close>

text \<open>
  Each loop of the source is shown equal to a comprehension over its input. The column
  mapping holds, in the key order of \<open>COLUMN_MAP\<close>, the last matching header of each
  signal that has one. A pass of the estimator raises \<open>TypeError\<close> on a boolean-typed
  column and returns on any other column of the frame; it leaves a frame whose mapped
  columns are coerced and whose other cells are as they were, so the classifier finds a
  number or \<open>NaN\<close> in every cell it reads. The last lemmas of the section say that the
  report, when the pipeline returns one, is \<open>pipeline_report\<close>, and that the pipeline
  returns when no mapped column is boolean-typed.
\<close>

lemma find_snoc:
  "List.find P (xs @ [x]) = (case List.find P xs of None \<Rightarrow> (if P x then Some x else None) | Some y \<Rightarrow> Some y)"
  by (induction xs) auto

lemma dict_set_twice: "dict_set (dict_set d k v) k w = dict_set d k w"
  by (induction d) auto

lemma dict_set_fresh: "k \<notin> fst ` set d \<Longrightarrow> dict_set d k v = d @ [(k, v)]"
  by (induction d) auto

lemma map_of_dict_set: "map_of (dict_set d k v) = (map_of d)(k \<mapsto> v)"
  by (induction d) (auto simp: fun_eq_iff)

lemma keys_dict_set: "fst ` set (dict_set d k v) = insert k (fst ` set d)"
  using arg_cong [OF map_of_dict_set [of d k v], of dom] by (simp add: dom_map_of_conv_image_fst)

lemma map_columns_cols_gen:
  "map_columns_cols standard variations cols (dict_set mapped standard c0) =
    dict_set mapped standard (case last_match variations cols of None \<Rightarrow> c0 | Some c \<Rightarrow> c)"
  by (induction cols arbitrary: c0)
     (auto simp: last_match_def find_snoc dict_set_twice split: option.splits)

lemma map_columns_cols_eq:
  "map_columns_cols standard variations cols mapped =
    (case last_match variations cols of None \<Rightarrow> mapped | Some c \<Rightarrow> dict_set mapped standard c)"
proof (induction cols)
  case Nil
  then show ?case by (simp add: last_match_def)
next
  case (Cons col cols)
  show ?case
  proof (cases "alias_match variations col")
    case True
    then show ?thesis
      by (simp add: map_columns_cols_gen) (simp add: last_match_def find_snoc split: option.splits)
  next
    case False
    then show ?thesis using Cons
      by (simp add: last_match_def find_snoc split: option.splits)
  qed
qed

lemma map_columns_items_eq:
  "distinct (map fst items) \<Longrightarrow> fst ` set items \<inter> fst ` set mapped = {} \<Longrightarrow>
   map_columns_items items cols mapped = mapped @ List.map_filter (resolve cols) items"
proof (induction items arbitrary: mapped)
  case Nil
  then show ?case by simp
next
  case (Cons item items)
  obtain s vs where item: "item = (s, vs)" by (cases item)
  have fresh: "s \<notin> fst ` set mapped" using Cons.prems(2) item by auto
  show ?case
  proof (cases "last_match vs cols")
    case None
    then show ?thesis using Cons item
      by (simp add: map_columns_cols_eq resolve_def)
  next
    case (Some c)
    have "fst ` set items \<inter> fst ` set (mapped @ [(s, c)]) = {}"
      using Cons.prems item by auto
    then show ?thesis using Cons item Some fresh
      by (simp add: map_columns_cols_eq resolve_def dict_set_fresh)
  qed
qed

lemma map_columns_eq: "map_columns df = List.map_filter (resolve (columns df)) COLUMN_MAP"
  unfolding map_columns_def
  by (subst map_columns_items_eq) (simp_all add: COLUMN_MAP_def)

lemma get_loc_Some: "col \<in> set cols \<Longrightarrow> \<exists>j. get_loc cols col = Some j"
  by (induction cols) auto

lemma cell_at_set_cell: "cell_at (set_cell r j v) k = (if k = j then v else cell_at r k)"
  by (auto simp: cell_at_def set_cell_def nth_append)

lemma to_numeric_idem [simp]:
  "to_numeric_cell parse (to_numeric_cell parse c) = to_numeric_cell parse c"
  by (cases c) (auto split: option.splits)

lemma to_numeric_not_Txt [simp]: "to_numeric_cell parse c \<noteq> Txt t"
  by (cases c) (auto split: option.splits)

lemma to_numeric_not_Bool [simp]: "to_numeric_cell parse c \<noteq> Bool b"
  by (cases c) (auto split: option.splits)

lemma to_numeric_not_is_bool [simp]: "\<not> is_bool (to_numeric_cell parse c)"
  by (cases "to_numeric_cell parse c") simp_all

lemma cell_at_coerce_row:
  "cell_at (snd (coerce_row parse j r)) k =
    (if k = j then to_numeric_cell parse (cell_at (snd r) j) else cell_at (snd r) k)"
  by (simp add: coerce_row_def cell_at_set_cell)

lemma setitem_map:
  "get_loc (columns df) col = Some j \<Longrightarrow>
   df_setitem df col (map f (rows df)) =
   df\<lparr>rows := map (\<lambda>r. (fst r, set_cell (snd r) j (f r))) (rows df)\<rparr>"
  by (simp add: df_setitem_def zip_map2 zip_same_conv_map)

lemma series_values_coerced:
  "series_values (dropna (map (\<lambda>r. to_numeric_cell parse (cell_at (snd r) j)) rs)) =
   Inr (List.map_filter (\<lambda>r. numeric_at parse j (snd r)) rs)"
proof (induction rs)
  case Nil
  show ?case by (simp add: dropna_def)
next
  case (Cons r rs)
  then show ?case
    by (cases "to_numeric_cell parse (cell_at (snd r) j)")
       (simp_all add: dropna_def numeric_at_def)
qed

lemma dropna_coerced_empty:
  "(dropna (map (\<lambda>r. to_numeric_cell parse (cell_at (snd r) j)) rs) = []) =
   (List.map_filter (\<lambda>r. numeric_at parse j (snd r)) rs = [])"
proof (induction rs)
  case Nil
  show ?case by (simp add: dropna_def)
next
  case (Cons r rs)
  then show ?case
    by (cases "to_numeric_cell parse (cell_at (snd r) j)")
       (simp_all add: dropna_def numeric_at_def)
qed

lemma not_bool_dtype: "\<forall>c \<in> set cs. \<not> is_bool c \<Longrightarrow> \<not> bool_dtype cs"
  by (cases cs) (auto simp: bool_dtype_def)

lemma coerced_not_bool_dtype:
  "\<not> bool_dtype (dropna (map (\<lambda>r. to_numeric_cell parse (cell_at (snd r) j)) rs))"
  by (rule not_bool_dtype) (auto simp: dropna_def)

lemma dropna_bools: "list_all is_bool cs \<Longrightarrow> dropna cs = cs"
  by (induction cs) (auto simp: dropna_def)

lemma series_values_bools: "list_all is_bool cs \<Longrightarrow> \<exists>vs. series_values cs = Inr vs"
proof (induction cs)
  case Nil
  show ?case by simp
next
  case (Cons c cs)
  then show ?case by (cases c) auto
qed

lemma baseline_body_ok:
  assumes "get_loc (columns df) col = Some j" and "\<not> bool_col df j"
  shows "baseline_body parse s col (df, bl, vol) =
    Inr (df\<lparr>rows := map (coerce_row parse j) (rows df)\<rparr>,
         (case est_baseline parse df (s, col) of None \<Rightarrow> bl | Some (k, b) \<Rightarrow> dict_set bl k b),
         (case est_volatility parse df (s, col) of None \<Rightarrow> vol | Some (k, x) \<Rightarrow> dict_set vol k x))"
proof -
  let ?df1 = "df\<lparr>rows := map (coerce_row parse j) (rows df)\<rparr>"
  let ?series = "map (\<lambda>r. cell_at (snd r) j) (rows df)"
  let ?coerced = "map (\<lambda>r. to_numeric_cell parse (cell_at (snd r) j)) (rows df)"
  have get0: "df_getitem df col = Inr ?series"
    using assms(1) by (simp add: df_getitem_def)
  have num: "pd_to_numeric parse ?series = ?coerced"
    using assms(2) by (simp add: pd_to_numeric_def bool_col_def o_def)
  have set1: "df_setitem df col ?coerced = ?df1"
    using setitem_map [OF assms(1), of "\<lambda>r. to_numeric_cell parse (cell_at (snd r) j)"]
    by (simp add: coerce_row_def)
  have get1: "df_getitem ?df1 col = Inr ?coerced"
    using assms(1) by (simp add: df_getitem_def cell_at_coerce_row o_def)
  show ?thesis
    unfolding baseline_body_def
    using assms(1)
    by (simp add: get0 num set1 get1 series_median_def series_quantile_def
        coerced_not_bool_dtype series_values_coerced dropna_coerced_empty
        est_baseline_def est_volatility_def column_values_def stored_iqr_def iqr_of_def Let_def)
qed

lemma baseline_body_bool:
  assumes "get_loc (columns df) col = Some j" and "bool_col df j"
  shows "baseline_body parse s col (df, bl, vol) = Inl TypeError"
proof -
  let ?series = "map (\<lambda>r. cell_at (snd r) j) (rows df)"
  let ?df1 = "df\<lparr>rows := map (\<lambda>r. (fst r, set_cell (snd r) j (cell_at (snd r) j))) (rows df)\<rparr>"
  have dtype: "bool_dtype ?series"
    using assms(2) by (simp add: bool_col_def)
  then have all: "list_all is_bool ?series" and ne: "?series \<noteq> []"
    by (simp_all add: bool_dtype_def)
  have get0: "df_getitem df col = Inr ?series"
    using assms(1) by (simp add: df_getitem_def)
  have num: "pd_to_numeric parse ?series = ?series"
    using dtype by (simp add: pd_to_numeric_def)
  have set1: "df_setitem df col ?series = ?df1"
    using setitem_map [OF assms(1), of "\<lambda>r. cell_at (snd r) j"] by simp
  have get1: "df_getitem ?df1 col = Inr ?series"
    using assms(1) by (simp add: df_getitem_def cell_at_set_cell o_def)
  have clean: "dropna ?series = ?series"
    using all by (rule dropna_bools)
  obtain vs where vs: "series_values ?series = Inr vs"
    using series_values_bools [OF all] by blast
  have med: "series_median ?series = Inr (median vs)"
    by (simp add: series_median_def vs)
  have q: "series_quantile ?series p = Inl TypeError" for p
    using dtype by (simp add: series_quantile_def)
  show ?thesis
    unfolding baseline_body_def
    using ne by (simp add: get0 num set1 get1 clean med q)
qed

lemma row_rel_refl: "row_rel parse {} r r"
  by (simp add: row_rel_def)

lemma frame_rel_refl: "frame_rel parse {} df df"
  by (simp add: frame_rel_def list_all2_refl row_rel_refl)

lemma row_rel_coerce:
  "row_rel parse J r' r \<Longrightarrow> row_rel parse (insert j J) (coerce_row parse j r') r"
  by (auto simp: row_rel_def cell_at_coerce_row) (simp add: coerce_row_def)

lemma frame_rel_coerce:
  "frame_rel parse J df' df \<Longrightarrow>
   frame_rel parse (insert j J) (df'\<lparr>rows := map (coerce_row parse j) (rows df')\<rparr>) df"
  by (auto simp: frame_rel_def list_all2_map1 elim: list_all2_mono intro: row_rel_coerce)

lemma numeric_at_rel:
  "row_rel parse J r' r \<Longrightarrow> numeric_at parse j (snd r') = numeric_at parse j (snd r)"
  by (simp add: row_rel_def numeric_at_def)

lemma map_filter_rel:
  "list_all2 (row_rel parse J) rs' rs \<Longrightarrow>
   List.map_filter (\<lambda>r. numeric_at parse j (snd r)) rs' =
   List.map_filter (\<lambda>r. numeric_at parse j (snd r)) rs"
  by (induction rs' rs rule: list_all2_induct)
     (auto simp: numeric_at_rel split: option.splits)

lemma column_values_rel:
  "frame_rel parse J df' df \<Longrightarrow> column_values parse df' col = column_values parse df col"
  by (auto simp: frame_rel_def column_values_def map_filter_rel split: option.splits)

lemma est_baseline_rel:
  "frame_rel parse J df' df \<Longrightarrow> est_baseline parse df' item = est_baseline parse df item"
  by (simp add: est_baseline_def column_values_rel)

lemma est_volatility_rel:
  "frame_rel parse J df' df \<Longrightarrow> est_volatility parse df' item = est_volatility parse df item"
  by (simp add: est_volatility_def column_values_rel)

lemma bools_rel:
  "list_all2 (row_rel parse J) rs' rs \<Longrightarrow>
   list_all is_bool (map (\<lambda>r. cell_at (snd r) j) rs') \<Longrightarrow>
   list_all is_bool (map (\<lambda>r. cell_at (snd r) j) rs)"
proof (induction rs' rs rule: list_all2_induct)
  case Nil
  show ?case by simp
next
  case (Cons r' rs' r rs)
  have "is_bool (cell_at (snd r') j)" using Cons.prems by simp
  moreover have "cell_at (snd r') j =
      (if j \<in> J then to_numeric_cell parse (cell_at (snd r) j) else cell_at (snd r) j)"
    using Cons.hyps(1) by (simp add: row_rel_def)
  ultimately have "is_bool (cell_at (snd r) j)"
    by (cases "j \<in> J") simp_all
  then show ?case using Cons by simp
qed

lemma bool_col_rel: "frame_rel parse J df' df \<Longrightarrow> bool_col df' j \<Longrightarrow> bool_col df j"
proof -
  assume rel: "frame_rel parse J df' df" and b: "bool_col df' j"
  have rows: "list_all2 (row_rel parse J) (rows df') (rows df)"
    using rel by (simp add: frame_rel_def)
  have "rows df \<noteq> []"
    using b list_all2_lengthD [OF rows] by (auto simp: bool_col_def bool_dtype_def)
  moreover have "list_all is_bool (map (\<lambda>r. cell_at (snd r) j) (rows df))"
    using bools_rel [OF rows] b by (simp add: bool_col_def bool_dtype_def)
  ultimately show "bool_col df j" by (simp add: bool_col_def bool_dtype_def)
qed

lemma locs_Cons: "get_loc cols col = Some j \<Longrightarrow> locs cols ((s, col) # items) = insert j (locs cols items)"
  by (auto simp: locs_def)

lemma est_baseline_key: "est_baseline parse df (s, col) = Some (k, b) \<Longrightarrow> k = s"
  by (auto simp: est_baseline_def Let_def split: if_splits)

lemma est_volatility_key: "est_volatility parse df (s, col) = Some (k, b) \<Longrightarrow> k = s"
  by (auto simp: est_volatility_def Let_def split: if_splits)

lemma baseline_loop_Inr:
  assumes "frame_rel parse J df df0"
    and "\<forall>item \<in> set items. snd item \<in> set (columns df0)"
    and "distinct (map fst items)"
    and "fst ` set items \<inter> fst ` set bl = {}"
    and "fst ` set items \<inter> fst ` set vol = {}"
    and "baseline_loop parse items (df, bl, vol) = Inr res"
  shows "\<exists>df'. res = (df', bl @ List.map_filter (est_baseline parse df0) items,
                      vol @ List.map_filter (est_volatility parse df0) items) \<and>
         frame_rel parse (J \<union> locs (columns df0) items) df' df0"
  using assms
proof (induction items arbitrary: df bl vol J)
  case Nil
  then show ?case by (auto simp: locs_def)
next
  case (Cons item items)
  obtain s col where item: "item = (s, col)" by (cases item)
  have cols: "columns df = columns df0" using Cons.prems(1) by (simp add: frame_rel_def)
  obtain j where j: "get_loc (columns df0) col = Some j"
    using Cons.prems(2) item get_loc_Some by fastforce
  let ?df1 = "df\<lparr>rows := map (coerce_row parse j) (rows df)\<rparr>"
  let ?bl1 = "case est_baseline parse df0 (s, col) of None \<Rightarrow> bl | Some (k, b) \<Rightarrow> dict_set bl k b"
  let ?vol1 = "case est_volatility parse df0 (s, col) of None \<Rightarrow> vol | Some (k, x) \<Rightarrow> dict_set vol k x"
  have nb: "\<not> bool_col df j"
  proof
    assume "bool_col df j"
    then have "baseline_body parse s col (df, bl, vol) = Inl TypeError"
      using baseline_body_bool [of df col j parse s bl vol] j cols by simp
    then show False using Cons.prems(6) item by simp
  qed
  have body: "baseline_body parse s col (df, bl, vol) = Inr (?df1, ?bl1, ?vol1)"
    using baseline_body_ok [of df col j parse s bl vol] j cols nb Cons.prems(1)
    by (simp add: est_baseline_rel est_volatility_rel)
  have rest: "baseline_loop parse items (?df1, ?bl1, ?vol1) = Inr res"
    using Cons.prems(6) item body by simp
  have rel1: "frame_rel parse (insert j J) ?df1 df0"
    using Cons.prems(1) by (rule frame_rel_coerce)
  have s_bl: "s \<notin> fst ` set bl" and s_vol: "s \<notin> fst ` set vol"
    using Cons.prems(4,5) item by auto
  have bl1: "?bl1 = bl @ (case est_baseline parse df0 (s, col) of None \<Rightarrow> [] | Some p \<Rightarrow> [p])"
    using s_bl by (auto split: option.splits simp: dict_set_fresh dest: est_baseline_key)
  have vol1: "?vol1 = vol @ (case est_volatility parse df0 (s, col) of None \<Rightarrow> [] | Some p \<Rightarrow> [p])"
    using s_vol by (auto split: option.splits simp: dict_set_fresh dest: est_volatility_key)
  have fresh_bl: "fst ` set items \<inter> fst ` set ?bl1 = {}"
    using Cons.prems(3,4) item
    by (auto split: option.splits simp: keys_dict_set dest!: est_baseline_key)
  have fresh_vol: "fst ` set items \<inter> fst ` set ?vol1 = {}"
    using Cons.prems(3,5) item
    by (auto split: option.splits simp: keys_dict_set dest!: est_volatility_key)
  from Cons.IH [OF rel1 _ _ fresh_bl fresh_vol rest] Cons.prems(2,3)
  obtain df' where
    res: "res = (df', ?bl1 @ List.map_filter (est_baseline parse df0) items,
                 ?vol1 @ List.map_filter (est_volatility parse df0) items)"
    and rel': "frame_rel parse (insert j J \<union> locs (columns df0) items) df' df0"
    by auto
  have "res = (df', bl @ List.map_filter (est_baseline parse df0) (item # items),
               vol @ List.map_filter (est_volatility parse df0) (item # items))"
    using res item
    by (simp add: bl1 vol1 split: option.splits)
  moreover have "frame_rel parse (J \<union> locs (columns df0) (item # items)) df' df0"
    using rel' item j by (simp add: locs_Cons)
  ultimately show ?case by blast
qed

lemma baseline_loop_total:
  assumes "frame_rel parse J df df0"
    and "\<forall>item \<in> set items. snd item \<in> set (columns df0)"
    and "\<forall>item \<in> set items. \<not> bool_typed df0 (snd item)"
  shows "\<exists>res. baseline_loop parse items (df, bl, vol) = Inr res"
  using assms
proof (induction items arbitrary: df bl vol J)
  case Nil
  then show ?case by simp
next
  case (Cons item items)
  obtain s col where item: "item = (s, col)" by (cases item)
  have cols: "columns df = columns df0" using Cons.prems(1) by (simp add: frame_rel_def)
  obtain j where j: "get_loc (columns df0) col = Some j"
    using Cons.prems(2) item get_loc_Some by fastforce
  have "\<not> bool_col df0 j"
    using Cons.prems(3) item j by (simp add: bool_typed_def)
  then have nb: "\<not> bool_col df j"
    using bool_col_rel [OF Cons.prems(1)] by blast
  obtain st1 where body: "baseline_body parse s col (df, bl, vol) = Inr st1"
    and st1: "fst st1 = df\<lparr>rows := map (coerce_row parse j) (rows df)\<rparr>"
    using baseline_body_ok [of df col j parse s bl vol] j cols nb by simp
  obtain df1 bl1 vol1 where st: "st1 = (df1, bl1, vol1)" by (cases st1)
  have rel1: "frame_rel parse (insert j J) df1 df0"
    using frame_rel_coerce [OF Cons.prems(1), of j] st1 st by simp
  have "\<exists>res. baseline_loop parse items (df1, bl1, vol1) = Inr res"
    using Cons.IH [OF rel1] Cons.prems(2,3) by simp
  then show ?case using body st item by simp
qed

lemma check_signal_eq:
  "check_signal s v b acc = (if triggers s v b then acc @ [signal_name s] else acc)"
  by (cases s) (simp_all add: triggers_def)

lemma row_loop_Inr:
  "row_loop items bl cols r acc = Inr tr \<Longrightarrow>
   tr = acc @ map (signal_name \<circ> fst) (filter (item_hit bl cols r) items)"
proof (induction items arbitrary: acc)
  case Nil
  then show ?case by simp
next
  case (Cons item items)
  obtain s col where item: "item = (s, col)" by (cases item)
  show ?case
  proof (cases "map_of bl s")
    case None
    then show ?thesis using Cons item by (simp add: item_hit_def)
  next
    case (Some b)
    show ?thesis
    proof (cases "row_getitem cols r col")
      case (Inl e)
      then show ?thesis using Cons.prems item Some by simp
    next
      case (Inr c)
      show ?thesis
      proof (cases c)
        case (Num v)
        then show ?thesis
          using Cons.IH [of "check_signal s v b acc"] Cons.prems item Some Inr
          by (simp add: item_hit_def check_signal_eq)
      next
        case (Txt t)
        then show ?thesis using Cons.prems item Some Inr by simp
      next
        case (Bool x)
        then show ?thesis
          using Cons.IH [of "check_signal s (bool_value x) b acc"] Cons.prems item Some Inr
          by (simp add: item_hit_def check_signal_eq)
      next
        case NaN
        then show ?thesis using Cons item Some Inr by (simp add: item_hit_def)
      qed
    qed
  qed
qed

lemma row_loop_total:
  assumes "\<forall>item \<in> set items. \<exists>c. row_getitem cols r (snd item) = Inr c \<and> (\<forall>t. c \<noteq> Txt t)"
  shows "\<exists>tr. row_loop items bl cols r acc = Inr tr"
  using assms
proof (induction items arbitrary: acc)
  case Nil
  then show ?case by simp
next
  case (Cons item items)
  obtain s col where item: "item = (s, col)" by (cases item)
  obtain c where c: "row_getitem cols r col = Inr c" "\<forall>t. c \<noteq> Txt t"
    using Cons.prems item by auto
  have rest: "\<exists>tr. row_loop items bl cols r acc' = Inr tr" for acc'
    using Cons.IH Cons.prems by simp
  show ?case
    using c rest item by (cases c; cases "map_of bl s") simp_all
qed

lemma detect_loop_rel:
  assumes "list_all2 (\<lambda>p' p. fst p' = fst p \<and> row_loop items bl cols (snd p') [] = Inr (T p)) rs' rs"
  shows "detect_loop items bl cols rs' acc =
         Inr (acc @ List.map_filter (\<lambda>p. make_event (fst p) (T p)) rs)"
  using assms
proof (induction rs' rs arbitrary: acc rule: list_all2_induct)
  case Nil
  then show ?case by simp
next
  case (Cons p' rs' p rs)
  obtain idx r' where p': "p' = (idx, r')" by (cases p')
  have row: "row_loop items bl cols r' [] = Inr (T p)" and idx: "idx = fst p"
    using Cons.hyps(1) p' by simp_all
  show ?case
    using Cons.IH row idx p'
    by (simp add: make_event_def)
qed

lemma subseq_filter_mem:
  "subseq ys ks \<Longrightarrow> distinct ks \<Longrightarrow> filter (\<lambda>k. k \<in> set ys) ks = ys"
proof (induction ys ks rule: list_emb.induct)
  case (list_emb_Nil ys)
  then show ?case by simp
next
  case (list_emb_Cons xs ys y)
  then have "y \<notin> set xs" by (auto dest: list_emb_set)
  with list_emb_Cons show ?case by simp
next
  case (list_emb_Cons2 x y xs ys)
  then have "x \<notin> set ys" by simp
  then have "filter (\<lambda>k. k = x \<or> k \<in> set xs) ys = filter (\<lambda>k. k \<in> set xs) ys"
    by (intro filter_cong) auto
  with list_emb_Cons2 show ?case by simp
qed

lemma resolve_keys_subseq:
  "subseq (map fst (List.map_filter (resolve cols) items)) (map fst items)"
  by (induction items) (auto simp: resolve_def split: option.splits)

lemma in_set_map_filter: "y \<in> set (List.map_filter f xs) \<longleftrightarrow> (\<exists>x \<in> set xs. f x = Some y)"
  by (induction xs) (auto split: option.splits)

lemma find_Some_mem: "List.find P xs = Some x \<Longrightarrow> x \<in> set xs"
  by (induction xs) (auto split: if_splits)

lemma resolve_in_cols:
  "item \<in> set (List.map_filter (resolve cols) items) \<Longrightarrow> snd item \<in> set cols"
  by (auto simp: in_set_map_filter resolve_def last_match_def dest!: find_Some_mem)

lemma cm_subseq: "subseq (map fst (map_columns df)) canonical_signals"
  using resolve_keys_subseq [of "columns df" COLUMN_MAP]
  by (simp add: map_columns_eq) (simp add: COLUMN_MAP_def canonical_signals_def)

lemma subseq_distinct_left: "subseq xs ys \<Longrightarrow> distinct ys \<Longrightarrow> distinct xs"
  by (induction xs ys rule: list_emb.induct) (auto dest: list_emb_set)

lemma cm_distinct: "distinct (map fst (map_columns df))"
  using cm_subseq [of df] by (rule subseq_distinct_left) (simp add: canonical_signals_def)

lemma cm_cols: "item \<in> set (map_columns df) \<Longrightarrow> snd item \<in> set (columns df)"
  unfolding map_columns_eq by (rule resolve_in_cols)

lemma cm_keys:
  "map fst (map_columns df) = filter (\<lambda>s. map_of (map_columns df) s \<noteq> None) canonical_signals"
proof -
  have "filter (\<lambda>s. s \<in> set (map fst (map_columns df))) canonical_signals = map fst (map_columns df)"
    by (rule subseq_filter_mem [OF cm_subseq]) (simp add: canonical_signals_def)
  then show ?thesis by (simp add: map_of_eq_None_iff)
qed

lemma hit_satisfied:
  assumes rel: "row_rel parse (locs (columns df) (map_columns df)) r' r"
    and item: "item \<in> set (map_columns df)"
  shows "item_hit bl (columns df) (snd r') item = row_satisfied parse df bl (snd r) (fst item)"
    and "\<exists>c. row_getitem (columns df) (snd r') (snd item) = Inr c \<and> (\<forall>t. c \<noteq> Txt t)"
proof -
  obtain s col where sc: "item = (s, col)" by (cases item)
  have m: "map_of (map_columns df) s = Some col"
    using item sc cm_distinct by simp
  obtain j where j: "get_loc (columns df) col = Some j"
    using cm_cols [OF item] sc get_loc_Some by fastforce
  have "j \<in> locs (columns df) (map_columns df)"
    using item sc j by (force simp: locs_def)
  then have cell: "cell_at (snd r') j = to_numeric_cell parse (cell_at (snd r) j)"
    using rel by (simp add: row_rel_def)
  have get: "row_getitem (columns df) (snd r') col = Inr (to_numeric_cell parse (cell_at (snd r) j))"
    using j cell by (simp add: row_getitem_def)
  show "item_hit bl (columns df) (snd r') item = row_satisfied parse df bl (snd r) (fst item)"
    using sc m j get
    by (cases "to_numeric_cell parse (cell_at (snd r) j)")
       (simp_all add: item_hit_def row_satisfied_def numeric_at_def split: option.splits)
  show "\<exists>c. row_getitem (columns df) (snd r') (snd item) = Inr c \<and> (\<forall>t. c \<noteq> Txt t)"
    using sc get by simp
qed

lemma satisfied_mapped: "row_satisfied parse df bl r s \<Longrightarrow> map_of (map_columns df) s \<noteq> None"
  by (auto simp: row_satisfied_def split: option.splits)

lemma triggered_canonical:
  assumes rel: "row_rel parse (locs (columns df) (map_columns df)) r' r"
  shows "map (signal_name \<circ> fst) (filter (item_hit bl (columns df) (snd r')) (map_columns df)) =
         map signal_name (filter (row_satisfied parse df bl (snd r)) canonical_signals)"
proof -
  have "filter (item_hit bl (columns df) (snd r')) (map_columns df) =
        filter (row_satisfied parse df bl (snd r) \<circ> fst) (map_columns df)"
    by (rule filter_cong) (simp_all add: hit_satisfied(1) [OF rel])
  then have "map fst (filter (item_hit bl (columns df) (snd r')) (map_columns df)) =
        filter (row_satisfied parse df bl (snd r)) (map fst (map_columns df))"
    by (simp add: filter_map)
  also have "\<dots> = filter (row_satisfied parse df bl (snd r)) canonical_signals"
    by (subst cm_keys) (auto intro!: filter_cong dest: satisfied_mapped)
  finally show ?thesis by (simp flip: map_map)
qed

lemma row_loop_pipeline:
  assumes rel: "row_rel parse (locs (columns df) (map_columns df)) r' r"
  shows "row_loop (map_columns df) bl (columns df) (snd r') [] =
         Inr (map signal_name (filter (row_satisfied parse df bl (snd r)) canonical_signals))"
proof -
  obtain tr where tr: "row_loop (map_columns df) bl (columns df) (snd r') [] = Inr tr"
    using row_loop_total [of "map_columns df" "columns df" "snd r'" bl "[]"] hit_satisfied(2) [OF rel]
    by blast
  from row_loop_Inr [OF tr] show ?thesis
    using tr by (simp add: triggered_canonical [OF rel])
qed

lemma upload_csv_after_estimator:
  assumes "baseline_loop parse (map_columns df) (df, [], []) = Inr res"
  shows "upload_csv parse df = Inr (pipeline_report parse df)"
proof -
  let ?cm = "map_columns df"
  let ?bl = "List.map_filter (est_baseline parse df) ?cm"
  let ?vol = "List.map_filter (est_volatility parse df) ?cm"
  obtain df' where
    res: "res = (df', ?bl, ?vol)"
    and rel: "frame_rel parse (locs (columns df) ?cm) df' df"
    using baseline_loop_Inr [of parse "{}" df df ?cm "[]" "[]" res] cm_cols cm_distinct assms
    by (auto simp: frame_rel_refl)
  have cols: "columns df' = columns df"
    and rows: "list_all2 (row_rel parse (locs (columns df) ?cm)) (rows df') (rows df)"
    using rel by (simp_all add: frame_rel_def)
  have len: "length (rows df') = length (rows df)"
    using rows by (rule list_all2_lengthD)
  let ?T = "\<lambda>p. map signal_name (filter (row_satisfied parse df ?bl (snd p)) canonical_signals)"
  have "list_all2 (\<lambda>p' p. fst p' = fst p \<and> row_loop ?cm ?bl (columns df') (snd p') [] = Inr (?T p))
          (rows df') (rows df)"
    using rows
    by (rule list_all2_mono) (simp add: cols row_loop_pipeline, simp add: row_rel_def)
  moreover have "row_event parse df ?bl = (\<lambda>p. make_event (fst p) (?T p))"
    by (rule ext) (simp add: row_event_def)
  ultimately have detect: "detect_loop ?cm ?bl (columns df') (iterrows df') [] =
      Inr (List.map_filter (row_event parse df ?bl) (rows df))"
    using detect_loop_rel [of ?cm ?bl "columns df'" ?T "rows df'" "rows df" "[]"]
    by (simp add: iterrows_def)
  show ?thesis
    unfolding upload_csv_def pipeline_report_def
    using assms by (simp add: res detect len Let_def)
qed

lemma upload_csv_Inr:
  assumes "upload_csv parse df = Inr out"
  shows "out = pipeline_report parse df"
proof (cases "baseline_loop parse (map_columns df) (df, [], [])")
  case (Inl e)
  then show ?thesis using assms by (simp add: upload_csv_def)
next
  case (Inr res)
  then show ?thesis using assms upload_csv_after_estimator by simp
qed

lemma upload_csv_total:
  assumes "no_bool_mapped df"
  shows "upload_csv parse df = Inr (pipeline_report parse df)"
proof -
  have "\<forall>item \<in> set (map_columns df). \<not> bool_typed df (snd item)"
    using assms by (simp add: no_bool_mapped_def list_all_iff)
  then obtain res where "baseline_loop parse (map_columns df) (df, [], []) = Inr res"
    using baseline_loop_total [of parse "{}" df df "map_columns df" "[]" "[]"] cm_cols
    by (auto simp: frame_rel_refl)
  then show ?thesis by (rule upload_csv_after_estimator)
qed

section \<open>The dicts and the event list in the report\<close>

text \<open>
  Lookups in the column mapping and in the two dicts of the report, and the events of
  the report in terms of \<open>satisfied\<close>.
\<close>

lemma map_of_map_filter_keyed:
  assumes "distinct (map fst items)"
    and "\<And>item y. f item = Some y \<Longrightarrow> fst y = fst item"
  shows "map_of (List.map_filter f items) k =
         (case map_of items k of None \<Rightarrow> None | Some c \<Rightarrow> map_option snd (f (k, c)))"
  using assms(1)
proof (induction items)
  case Nil
  show ?case by simp
next
  case (Cons item items)
  obtain k' c' where item: "item = (k', c')" by (cases item)
  have notin: "map_of items k' = None"
    using Cons.prems item by (simp add: map_of_eq_None_iff)
  show ?case
  proof (cases "f item")
    case None
    then show ?thesis using Cons item notin by auto
  next
    case (Some y)
    then have "fst y = k'" using assms(2) item by fastforce
    then show ?thesis using Cons item Some notin by (cases y) auto
  qed
qed

lemma map_of_baselines:
  "map_of (List.map_filter (est_baseline parse df) (map_columns df)) s =
    (case map_of (map_columns df) s of
       None \<Rightarrow> None
     | Some col \<Rightarrow>
         if column_values parse df col = [] then None
         else Some (median (column_values parse df col)))"
  by (subst map_of_map_filter_keyed [OF cm_distinct])
     (auto simp: est_baseline_def Let_def split: option.splits if_splits)

lemma map_of_volatility:
  "map_of (List.map_filter (est_volatility parse df) (map_columns df)) s =
    (case map_of (map_columns df) s of
       None \<Rightarrow> None
     | Some col \<Rightarrow>
         if column_values parse df col = [] then None
         else Some (stored_iqr (column_values parse df col)))"
  by (subst map_of_map_filter_keyed [OF cm_distinct])
     (auto simp: est_volatility_def Let_def split: option.splits if_splits)

lemma map_option_snd_Pair: "map_option snd (map_option (Pair k) x) = x"
  by (cases x) simp_all

lemma map_of_map_columns:
  "map_of (map_columns df) s =
    (case map_of COLUMN_MAP s of None \<Rightarrow> None | Some variations \<Rightarrow> last_match variations (columns df))"
  unfolding map_columns_eq
  by (subst map_of_map_filter_keyed)
     (auto simp: COLUMN_MAP_def resolve_def map_option_snd_Pair split: option.splits)

lemma est_keys_equal:
  "map fst (List.map_filter (est_baseline parse df) items) =
   map fst (List.map_filter (est_volatility parse df) items)"
  by (induction items) (auto simp: est_baseline_def est_volatility_def Let_def)

lemma map_filter_all_None: "(\<forall>x \<in> set xs. f x = None) \<Longrightarrow> List.map_filter f xs = []"
  by (induction xs) auto

lemma canonical_all: "s \<in> set canonical_signals"
  by (cases s) (simp_all add: canonical_signals_def)

lemma signal_name_inj: "signal_name s = signal_name s' \<Longrightarrow> s = s'"
  by (cases s; cases s') simp_all

lemma triggers_spec:
  "s = heart_rate \<longrightarrow> b \<noteq> 0 \<Longrightarrow> triggers s v b = spec_trigger s v b"
  by (cases s) (simp_all add: triggers_def heart_rate_exceeds_def)

lemma some_satisfied:
  "(filter (row_satisfied parse df bl r) canonical_signals \<noteq> []) = (\<exists>s. row_satisfied parse df bl r s)"
  by (auto simp: filter_empty_conv canonical_all)

lemma count_satisfied:
  "length (filter (row_satisfied parse df bl r) canonical_signals) =
   card {s. row_satisfied parse df bl r s}"
proof -
  have "distinct (filter (row_satisfied parse df bl r) canonical_signals)"
    by (simp add: canonical_signals_def)
  then have "length (filter (row_satisfied parse df bl r) canonical_signals) =
             card (set (filter (row_satisfied parse df bl r) canonical_signals))"
    by (rule distinct_card [symmetric])
  also have "set (filter (row_satisfied parse df bl r) canonical_signals) =
             {s. row_satisfied parse df bl r s}"
    by (auto simp: canonical_all)
  finally show ?thesis .
qed

lemma row_event_Some:
  "row_event parse df bl r = Some e \<longleftrightarrow>
    (\<exists>s. row_satisfied parse df bl (snd r) s) \<and>
    e = \<lparr>row = fst r,
         signals = join '', ''
           (map signal_name (filter (row_satisfied parse df bl (snd r)) canonical_signals)),
         severity = length (filter (row_satisfied parse df bl (snd r)) canonical_signals)\<rparr>"
  by (auto simp: row_event_def make_event_def some_satisfied)

lemma row_event_None:
  "row_event parse df bl r = None \<longleftrightarrow> \<not> (\<exists>s. row_satisfied parse df bl (snd r) s)"
  by (auto simp: row_event_def make_event_def some_satisfied)

lemma map_filter_as_map:
  "(\<And>x. x \<in> set xs \<Longrightarrow> h x = (if P x then Some (g x) else None)) \<Longrightarrow>
   List.map_filter h xs = map g (filter P xs)"
  by (induction xs) auto

lemma events_by_position:
  "List.map_filter (row_event parse df bl) (rows df) =
   map (\<lambda>i. \<lparr>row = fst (rows df ! i),
              signals = join '', ''
                (map signal_name (filter (satisfied parse df bl i) canonical_signals)),
              severity = card {s. satisfied parse df bl i s}\<rparr>)
       (filter (\<lambda>i. \<exists>s. satisfied parse df bl i s) [0..<length (rows df)])"
proof -
  have "List.map_filter (row_event parse df bl) (rows df) =
        List.map_filter (row_event parse df bl) (map (\<lambda>i. rows df ! i) [0..<length (rows df)])"
    by (simp add: map_nth)
  also have "\<dots> = List.map_filter (\<lambda>i. row_event parse df bl (rows df ! i)) [0..<length (rows df)]"
    by (simp add: List.map_filter_def filter_map o_def)
  also have "\<dots> =
      map (\<lambda>i. \<lparr>row = fst (rows df ! i),
              signals = join '', ''
                (map signal_name (filter (satisfied parse df bl i) canonical_signals)),
              severity = card {s. satisfied parse df bl i s}\<rparr>)
       (filter (\<lambda>i. \<exists>s. satisfied parse df bl i s) [0..<length (rows df)])"
  proof (rule map_filter_as_map)
    fix i
    have sat: "satisfied parse df bl i = row_satisfied parse df bl (snd (rows df ! i))"
      by (rule ext) (simp add: satisfied_def)
    show "row_event parse df bl (rows df ! i) =
        (if \<exists>s. satisfied parse df bl i s
         then Some \<lparr>row = fst (rows df ! i),
                signals = join '', ''
                  (map signal_name (filter (satisfied parse df bl i) canonical_signals)),
                severity = card {s. satisfied parse df bl i s}\<rparr>
         else None)"
      unfolding sat
      by (simp add: row_event_Some row_event_None count_satisfied)
  qed
  finally show ?thesis .
qed

lemma event_in_devs:
  "e \<in> set (List.map_filter (row_event parse df bl) rs) \<longleftrightarrow>
   (\<exists>r \<in> set rs. row_event parse df bl r = Some e)"
  by (auto simp: in_set_map_filter)

lemma no_values_not_bool:
  assumes "get_loc (columns df) col = Some j" and "column_values parse df col = []"
  shows "\<not> bool_col df j"
proof
  assume "bool_col df j"
  then have ne: "rows df \<noteq> []"
    and all: "list_all is_bool (map (\<lambda>r. cell_at (snd r) j) (rows df))"
    by (simp_all add: bool_col_def bool_dtype_def)
  obtain r rs where rows: "rows df = r # rs" using ne by (cases "rows df") auto
  then have "is_bool (cell_at (snd r) j)" using all by simp
  then have "numeric_at parse j (snd r) \<noteq> None"
    by (cases "cell_at (snd r) j") (simp_all add: numeric_at_def)
  then show False using assms rows by (auto simp: column_values_def)
qed

section \<open>The pipeline on the four tables\<close>

text \<open>The runs on the tables above, by evaluation.\<close>

lemma example_run: "upload_csv example_parse example_frame = Inr example_report"
  unfolding example_frame_def example_report_def example_parse_def by code_simp

lemma reversed_run: "upload_csv example_parse reversed_frame = Inr reversed_report"
  unfolding reversed_frame_def reversed_report_def example_parse_def by code_simp

lemma tiny_spread_run: "upload_csv example_parse tiny_spread_frame = Inr tiny_spread_report"
  unfolding tiny_spread_frame_def tiny_spread_report_def example_parse_def by code_simp

lemma bool_frame_run: "upload_csv example_parse bool_frame = Inl TypeError"
  unfolding bool_frame_def example_parse_def by code_simp

section \<open>Properties\<close>

text \<open>
  C1. Whenever the pipeline returns a report, its deviation events are, in row order,
  one for each position of the row list at which at least one signal with a resolved
  column and a computed baseline satisfies its trigger condition on the number that the
  row's cell coerces to, and none for any other row. The event of such a row carries the
  index label of the row, and its severity is the number of signals for which the
  condition holds in that row.
\<close>

theorem deviation_event_iff_satisfied:
  assumes "upload_csv parse df = Inr out"
  shows "deviation_rows out =
    map (\<lambda>i. \<lparr>row = fst (rows df ! i),
               signals = join '', ''
                 (map signal_name (filter (satisfied parse df (baselines out) i) canonical_signals)),
               severity = card {s. satisfied parse df (baselines out) i s}\<rparr>)
        (filter (\<lambda>i. \<exists>s. satisfied parse df (baselines out) i s) [0..<length (rows df)])"
proof -
  have out: "out = pipeline_report parse df"
    using assms by (rule upload_csv_Inr)
  have "deviation_rows out = List.map_filter (row_event parse df (baselines out)) (rows df)"
    unfolding out by (simp add: pipeline_report_def Let_def)
  then show ?thesis by (simp only: events_by_position)
qed

theorem deviation_event_iff_satisfied_witness:
  "upload_csv example_parse example_frame = Inr example_report \<and>
   deviation_rows example_report =
    map (\<lambda>i. \<lparr>row = fst (rows example_frame ! i),
               signals = join '', ''
                 (map signal_name
                   (filter (satisfied example_parse example_frame (baselines example_report) i)
                      canonical_signals)),
               severity = card {s. satisfied example_parse example_frame (baselines example_report) i s}\<rparr>)
        (filter (\<lambda>i. \<exists>s. satisfied example_parse example_frame (baselines example_report) i s)
           [0..<length (rows example_frame)])"
  using deviation_event_iff_satisfied [OF example_run] example_run by blast

text \<open>
  C2, as amended. For every canonical signal and every list of headers, the header that
  \<open>map_columns\<close> maps the signal to is the last header in table order whose trimmed,
  lower-cased text is one of the signal's aliases (none when no header matches): the
  loop over the headers has no \<open>break\<close>, so a later match overwrites an earlier one.
\<close>

theorem map_columns_last_match:
  assumes "(s, variations) \<in> set COLUMN_MAP"
  shows "map_of (map_columns df) s = last_match variations (columns df)"
proof -
  have "distinct (map fst COLUMN_MAP)" by (simp add: COLUMN_MAP_def)
  then have "map_of COLUMN_MAP s = Some variations"
    using assms by simp
  then show ?thesis by (simp add: map_of_map_columns)
qed

theorem map_columns_last_match_witness:
  "(heart_rate, [''hr'', ''heart rate'', ''heartrate'', ''heart_rate'']) \<in> set COLUMN_MAP \<and>
   map_of (map_columns \<lparr>columns = [''Hr'', ''x'', ''Heart Rate '', ''y''], rows = []\<rparr>) heart_rate =
     Some ''Heart Rate ''"
proof -
  have mem: "(heart_rate, [''hr'', ''heart rate'', ''heartrate'', ''heart_rate'']) \<in> set COLUMN_MAP"
    by (simp add: COLUMN_MAP_def)
  have "last_match [''hr'', ''heart rate'', ''heartrate'', ''heart_rate'']
          [''Hr'', ''x'', ''Heart Rate '', ''y''] = Some ''Heart Rate ''"
    by code_simp
  with map_columns_last_match [OF mem, of "\<lparr>columns = [''Hr'', ''x'', ''Heart Rate '', ''y''], rows = []\<rparr>"] mem
  show ?thesis by simp
qed

text \<open>
  The claim as stated fails: with the headers \<open>hr\<close> and \<open>HR\<close>, in this order, the first
  matching header is \<open>hr\<close> and the resolver maps \<open>heart_rate\<close> to \<open>HR\<close>.
\<close>

theorem map_columns_first_match_counterexample:
  "map_of (map_columns \<lparr>columns = [''hr'', ''HR''], rows = []\<rparr>) heart_rate = Some ''HR'' \<and>
   first_match [''hr'', ''heart rate'', ''heartrate'', ''heart_rate''] [''hr'', ''HR''] = Some ''hr''"
  by code_simp

text \<open>
  C3, as amended. For every entry of the volatility dict of a report, the signal has a
  resolved column with at least one valid numeric value, and the stored volatility is
  Q3 - Q1 of these values when that is not zero and \<open>1e-6\<close> when it is exactly zero. It is
  therefore never zero, and it equals \<open>max(Q3 - Q1, 1e-6)\<close> whenever Q3 - Q1 is zero or
  at least \<open>1e-6\<close>.
\<close>

theorem stored_volatility:
  assumes "upload_csv parse df = Inr out" and "map_of (volatility out) s = Some x"
  shows "\<exists>col. map_of (map_columns df) s = Some col \<and> column_values parse df col \<noteq> [] \<and>
     x = (if iqr_of (column_values parse df col) = 0 then 1 / 1000000
          else iqr_of (column_values parse df col)) \<and>
     x \<noteq> 0 \<and>
     (iqr_of (column_values parse df col) = 0 \<or> 1 / 1000000 \<le> iqr_of (column_values parse df col)
        \<longrightarrow> x = max (iqr_of (column_values parse df col)) (1 / 1000000))"
proof -
  have out: "out = pipeline_report parse df"
    using assms(1) by (rule upload_csv_Inr)
  then have "map_of (List.map_filter (est_volatility parse df) (map_columns df)) s = Some x"
    using assms(2) by (simp add: pipeline_report_def Let_def)
  then obtain col where col: "map_of (map_columns df) s = Some col"
    and ne: "column_values parse df col \<noteq> []"
    and x: "x = stored_iqr (column_values parse df col)"
    unfolding map_of_volatility by (auto split: option.splits if_splits)
  show ?thesis
    using col ne x by (auto simp: stored_iqr_def max_def)
qed

theorem stored_volatility_witness:
  "upload_csv example_parse example_frame = Inr example_report \<and>
   map_of (volatility example_report) heart_rate = Some (15 / 2) \<and>
   (\<exists>col. map_of (map_columns example_frame) heart_rate = Some col \<and>
      iqr_of (column_values example_parse example_frame col) = 15 / 2)"
proof -
  have v: "map_of (volatility example_report) heart_rate = Some (15 / 2)"
    by (simp add: example_report_def)
  from stored_volatility [OF example_run v]
  obtain col where "map_of (map_columns example_frame) heart_rate = Some col"
    and "(15 / 2 :: rat) = (if iqr_of (column_values example_parse example_frame col) = 0
          then 1 / 1000000 else iqr_of (column_values example_parse example_frame col))"
    by blast
  then have "\<exists>col. map_of (map_columns example_frame) heart_rate = Some col \<and>
      iqr_of (column_values example_parse example_frame col) = 15 / 2"
    by (auto split: if_splits)
  with example_run v show ?thesis by blast
qed

text \<open>
  The claim as stated fails: heart rates 70, 70, 70 and 70.000001 have Q3 - Q1 = 2.5e-7,
  and this is the volatility that the report stores, below \<open>1e-6\<close>.
\<close>

theorem volatility_floor_counterexample:
  "upload_csv example_parse tiny_spread_frame = Inr tiny_spread_report \<and>
   map_of (volatility tiny_spread_report) heart_rate = Some (1 / 4000000) \<and>
   (1 / 4000000 :: rat) < 1 / 1000000 \<and>
   max (iqr_of (column_values example_parse tiny_spread_frame ''hr'')) (1 / 1000000) = 1 / 1000000"
proof -
  have "max (iqr_of (column_values example_parse tiny_spread_frame ''hr'')) (1 / 1000000) = 1 / 1000000"
    unfolding tiny_spread_frame_def example_parse_def by code_simp
  then show ?thesis
    by (simp add: tiny_spread_run) (simp add: tiny_spread_report_def)
qed

text \<open>
  C4. In the classifier's loop for one row, a mapped signal with a baseline \<open>b\<close> whose
  cell in the row is the number \<open>v\<close> is appended to the triggered list exactly when the
  condition of the specification's table holds: \<open>abs(v - b) / b > 0.15\<close> for heart rate
  (for a baseline other than zero), \<open>b - v > 2\<close> for oxygen saturation,
  \<open>abs(v - b) > 10\<close> for systolic and \<open>abs(v - b) > 5\<close> for diastolic pressure.
\<close>

theorem trigger_conditions:
  assumes "(s, col) \<in> set (map_columns df)"
    and "map_of bl s = Some b"
    and "row_getitem (columns df) r col = Inr (Num v)"
    and "s = heart_rate \<longrightarrow> b \<noteq> 0"
    and "row_loop (map_columns df) bl (columns df) r [] = Inr triggered"
  shows "(signal_name s \<in> set triggered) = spec_trigger s v b"
proof -
  have tr: "triggered = map (signal_name \<circ> fst) (filter (item_hit bl (columns df) r) (map_columns df))"
    using row_loop_Inr [OF assms(5)] by simp
  have hit: "item_hit bl (columns df) r (s, col) = triggers s v b"
    using assms(2,3) by (simp add: item_hit_def)
  have only: "item = (s, col)" if "item \<in> set (map_columns df)" and "fst item = s" for item
    using that assms(1) cm_distinct [of df] by (metis eq_key_imp_eq_value prod.collapse)
  have "(signal_name s \<in> set triggered) = item_hit bl (columns df) r (s, col)"
  proof
    assume "signal_name s \<in> set triggered"
    then obtain item where "item \<in> set (map_columns df)" "item_hit bl (columns df) r item"
      "signal_name (fst item) = signal_name s"
      unfolding tr by auto
    then show "item_hit bl (columns df) r (s, col)"
      using only signal_name_inj by metis
  next
    assume "item_hit bl (columns df) r (s, col)"
    then have "(s, col) \<in> set (filter (item_hit bl (columns df) r) (map_columns df))"
      using assms(1) by simp
    then show "signal_name s \<in> set triggered"
      unfolding tr by force
  qed
  then show ?thesis using hit triggers_spec [OF assms(4)] by simp
qed

theorem trigger_conditions_witness:
  "(heart_rate, '' HR '') \<in> set (map_columns example_frame) \<and>
   map_of [(heart_rate, 100), (spo2, 98)] heart_rate = Some (100 :: rat) \<and>
   row_getitem (columns example_frame) [Txt ''e'', Num 130, Num 94, Txt ''z'', Txt ''w''] '' HR '' =
     Inr (Num 130) \<and>
   (100 :: rat) \<noteq> 0 \<and>
   row_loop (map_columns example_frame) [(heart_rate, 100), (spo2, 98)] (columns example_frame)
     [Txt ''e'', Num 130, Num 94, Txt ''z'', Txt ''w''] [] = Inr [''heart_rate'', ''spo2''] \<and>
   spec_trigger heart_rate 130 100"
proof -
  let ?r = "[Txt ''e'', Num 130, Num 94, Txt ''z'', Txt ''w'']"
  let ?bl = "[(heart_rate, 100 :: rat), (spo2, 98)]"
  have m: "(heart_rate, '' HR '') \<in> set (map_columns example_frame)"
    unfolding example_frame_def by code_simp
  have b: "map_of ?bl heart_rate = Some 100" by simp
  have g: "row_getitem (columns example_frame) ?r '' HR '' = Inr (Num 130)"
    unfolding example_frame_def by code_simp
  have nz: "heart_rate = heart_rate \<longrightarrow> (100 :: rat) \<noteq> 0" by simp
  have l: "row_loop (map_columns example_frame) ?bl (columns example_frame) ?r [] =
      Inr [''heart_rate'', ''spo2'']"
    unfolding example_frame_def by code_simp
  from trigger_conditions [OF m b g nz l] have "spec_trigger heart_rate 130 100" by simp
  with m b g l show ?thesis by simp
qed

text \<open>
  C5. Whenever the pipeline returns a report, its \<open>total_rows\<close> is the number of rows of
  the input table, whatever the cells hold.
\<close>

theorem total_rows_is_row_count:
  assumes "upload_csv parse df = Inr out"
  shows "total_rows out = length (rows df)"
  using upload_csv_Inr [OF assms] by (simp add: pipeline_report_def Let_def)

theorem total_rows_is_row_count_witness:
  "upload_csv example_parse example_frame = Inr example_report \<and>
   total_rows example_report = length (rows example_frame)"
  using total_rows_is_row_count [OF example_run] example_run by blast

text \<open>
  C6. Let a signal be mapped to a column that holds no value that coerces to a number.
  Then the signal's pass of the estimator's loop body returns, with both dicts as they
  were, on every frame that has the headers of the table and the cells of the table in
  that column; the pipeline returns a report when no mapped column is boolean-typed;
  and in every report that the pipeline returns, the signal has no entry in the
  baselines nor in the volatility dict, its trigger condition is satisfied in no row,
  and it is in the triggered list of no event.
\<close>

theorem unbaselined_signal_skipped:
  assumes "map_of (map_columns df) s = Some col" and "column_values parse df col = []"
  shows "(\<forall>df' bl vol. columns df' = columns df \<and> df_getitem df' col = df_getitem df col \<longrightarrow>
            (\<exists>df1. baseline_body parse s col (df', bl, vol) = Inr (df1, bl, vol))) \<and>
         (no_bool_mapped df \<longrightarrow> (\<exists>out. upload_csv parse df = Inr out)) \<and>
         (\<forall>out. upload_csv parse df = Inr out \<longrightarrow>
            map_of (baselines out) s = None \<and> map_of (volatility out) s = None \<and>
            (\<forall>i. \<not> satisfied parse df (baselines out) i s) \<and>
            (\<forall>e \<in> set (deviation_rows out).
               \<exists>tr. signals e = join '', '' (map signal_name tr) \<and> severity e = length tr \<and>
                    s \<notin> set tr))"
proof -
  have pass: "\<exists>df1. baseline_body parse s col (df', bl, vol) = Inr (df1, bl, vol)"
    if same: "columns df' = columns df \<and> df_getitem df' col = df_getitem df col" for df' bl vol
  proof -
    have "(s, col) \<in> set (map_columns df)"
      using assms(1) by (rule map_of_SomeD)
    then obtain j where j: "get_loc (columns df) col = Some j"
      using cm_cols get_loc_Some by fastforce
    have series: "map (\<lambda>r. cell_at (snd r) j) (rows df') = map (\<lambda>r. cell_at (snd r) j) (rows df)"
      using same j by (auto simp: df_getitem_def)
    have nb: "\<not> bool_col df' j"
      using no_values_not_bool [OF j assms(2)] series by (simp add: bool_col_def)
    have "List.map_filter (\<lambda>r. numeric_at parse j (snd r)) rs =
          List.map_filter (\<lambda>c. case to_numeric_cell parse c of Num v \<Rightarrow> Some v | _ \<Rightarrow> None)
            (map (\<lambda>r. cell_at (snd r) j) rs)" for rs :: "(cell \<times> cell list) list"
      by (simp add: List.map_filter_def filter_map o_def numeric_at_def)
    then have "column_values parse df' col = column_values parse df col"
      using same j series by (simp add: column_values_def)
    then have vals: "column_values parse df' col = []"
      using assms(2) by simp
    show ?thesis
      using baseline_body_ok [of df' col j parse s bl vol] j same nb
      by (simp add: est_baseline_def est_volatility_def vals)
  qed
  have total: "\<exists>out. upload_csv parse df = Inr out" if "no_bool_mapped df"
    using that upload_csv_total by blast
  have skipped: "map_of (baselines out) s = None \<and> map_of (volatility out) s = None \<and>
            (\<forall>i. \<not> satisfied parse df (baselines out) i s) \<and>
            (\<forall>e \<in> set (deviation_rows out).
               \<exists>tr. signals e = join '', '' (map signal_name tr) \<and> severity e = length tr \<and>
                    s \<notin> set tr)"
    if run: "upload_csv parse df = Inr out" for out
  proof -
    have out: "out = pipeline_report parse df"
      using run by (rule upload_csv_Inr)
    have bl: "map_of (baselines out) s = None"
      using assms by (simp add: out pipeline_report_def Let_def map_of_baselines)
    have vol: "map_of (volatility out) s = None"
      using assms by (simp add: out pipeline_report_def Let_def map_of_volatility)
    have unsat: "\<not> row_satisfied parse df (baselines out) r s" for r
      using bl by (simp add: row_satisfied_def split: option.splits)
    have rows: "\<not> satisfied parse df (baselines out) i s" for i
      using unsat by (simp add: satisfied_def)
    have "\<exists>tr. signals e = join '', '' (map signal_name tr) \<and> severity e = length tr \<and> s \<notin> set tr"
      if mem: "e \<in> set (deviation_rows out)" for e
    proof -
      have "deviation_rows out = List.map_filter (row_event parse df (baselines out)) (rows df)"
        unfolding out by (simp add: pipeline_report_def Let_def)
      then obtain r where ev: "row_event parse df (baselines out) r = Some e"
        using mem by (auto simp: event_in_devs)
      let ?tr = "filter (row_satisfied parse df (baselines out) (snd r)) canonical_signals"
      have "signals e = join '', '' (map signal_name ?tr)" and "severity e = length ?tr"
        using ev by (simp_all add: row_event_Some)
      moreover have "s \<notin> set ?tr" using unsat by simp
      ultimately show ?thesis by blast
    qed
    with bl vol rows show ?thesis by blast
  qed
  from pass total skipped show ?thesis by blast
qed

theorem unbaselined_signal_skipped_witness:
  "map_of (map_columns example_frame) systolic_bp = Some ''sys'' \<and>
   column_values example_parse example_frame ''sys'' = [] \<and>
   no_bool_mapped example_frame \<and>
   (\<exists>out. upload_csv example_parse example_frame = Inr out \<and>
      map_of (baselines out) systolic_bp = None \<and> map_of (volatility out) systolic_bp = None) \<and>
   (\<exists>df1. baseline_body example_parse systolic_bp ''sys'' (example_frame, [], []) = Inr (df1, [], []))"
proof -
  have m: "map_of (map_columns example_frame) systolic_bp = Some ''sys''"
    unfolding example_frame_def by code_simp
  have v: "column_values example_parse example_frame ''sys'' = []"
    unfolding example_frame_def example_parse_def by code_simp
  have nb: "no_bool_mapped example_frame"
    unfolding example_frame_def by code_simp
  note skip = unbaselined_signal_skipped [OF m v]
  from skip nb obtain out where out: "upload_csv example_parse example_frame = Inr out"
    by blast
  with skip have "map_of (baselines out) systolic_bp = None \<and> map_of (volatility out) systolic_bp = None"
    by blast
  moreover from skip
  have "\<exists>df1. baseline_body example_parse systolic_bp ''sys'' (example_frame, [], []) = Inr (df1, [], [])"
    by blast
  ultimately show ?thesis using m v nb out by blast
qed

text \<open>
  C7. For a table with no rows, whatever its headers, the pipeline returns a report
  and raises no error: no baselines, no events, \<open>total_rows = 0\<close>, \<open>max_severity = 0\<close>
  and \<open>multi_signal = 0\<close>.
\<close>

theorem empty_table_report:
  assumes "rows df = []"
  shows "upload_csv parse df =
    Inr \<lparr>baselines = [], volatility = [], deviation_rows = [], total_rows = 0,
         deviation_count = 0, max_severity = 0, multi_signal = 0\<rparr>"
proof -
  have vals: "column_values parse df col = []" for col
    using assms by (simp add: column_values_def split: option.splits)
  have "no_bool_mapped df"
    using assms
    by (simp add: no_bool_mapped_def list_all_iff bool_typed_def bool_col_def bool_dtype_def
        split: option.splits)
  then have run: "upload_csv parse df = Inr (pipeline_report parse df)"
    by (rule upload_csv_total)
  have "List.map_filter (est_baseline parse df) (map_columns df) = []"
    by (rule map_filter_all_None) (simp add: est_baseline_def vals)
  moreover have "List.map_filter (est_volatility parse df) (map_columns df) = []"
    by (rule map_filter_all_None) (simp add: est_volatility_def vals)
  ultimately show ?thesis
    using assms by (simp add: run pipeline_report_def)
qed

theorem empty_table_report_witness:
  "rows \<lparr>columns = [''hr'', ''SpO2'', ''sbp'', ''dbp''], rows = []\<rparr> = [] \<and>
   upload_csv example_parse \<lparr>columns = [''hr'', ''SpO2'', ''sbp'', ''dbp''], rows = []\<rparr> =
    Inr \<lparr>baselines = [], volatility = [], deviation_rows = [], total_rows = 0,
         deviation_count = 0, max_severity = 0, multi_signal = 0\<rparr>"
  using empty_table_report [of "\<lparr>columns = [''hr'', ''SpO2'', ''sbp'', ''dbp''], rows = []\<rparr>" example_parse]
  by simp

text \<open>
  C9. In every report that the pipeline returns, the baselines dict and the volatility
  dict hold the same signals, in the same order: a signal has a stored median if and
  only if it has a stored volatility.
\<close>

theorem baseline_and_volatility_keys:
  assumes "upload_csv parse df = Inr out"
  shows "map fst (baselines out) = map fst (volatility out) \<and>
     (\<forall>s. (\<exists>b. map_of (baselines out) s = Some b) = (\<exists>x. map_of (volatility out) s = Some x))"
proof -
  have out: "out = pipeline_report parse df"
    using assms by (rule upload_csv_Inr)
  have keys: "map fst (baselines out) = map fst (volatility out)"
    by (simp add: out pipeline_report_def Let_def est_keys_equal)
  have "(\<exists>b. map_of (baselines out) s = Some b) = (\<exists>x. map_of (volatility out) s = Some x)" for s
    by (simp add: out pipeline_report_def Let_def map_of_baselines map_of_volatility split: option.splits)
  with keys show ?thesis by blast
qed

theorem baseline_and_volatility_keys_witness:
  "upload_csv example_parse example_frame = Inr example_report \<and>
   map fst (baselines example_report) = [heart_rate, spo2] \<and>
   map fst (volatility example_report) = [heart_rate, spo2]"
proof -
  from baseline_and_volatility_keys [OF example_run]
  have keys: "map fst (baselines example_report) = map fst (volatility example_report)"
    by blast
  have "map fst (baselines example_report) = [heart_rate, spo2]"
    by (simp add: example_report_def)
  with keys example_run show ?thesis by simp
qed

text \<open>
  C10. For every event of every report that the pipeline returns, the triggered signals
  that its \<open>signals\<close> string joins are a subsequence of heart_rate, spo2, systolic_bp,
  diastolic_bp, whatever the order of the headers in the table; no signal occurs twice,
  and the severity, their number, is between 1 and 4.
\<close>

theorem triggered_in_canonical_order:
  assumes "upload_csv parse df = Inr out"
  shows "\<forall>e \<in> set (deviation_rows out).
        \<exists>tr. subseq tr [heart_rate, spo2, systolic_bp, diastolic_bp] \<and> distinct tr \<and>
             signals e = join '', '' (map signal_name tr) \<and>
             severity e = length tr \<and> 1 \<le> severity e \<and> severity e \<le> 4"
proof
  fix e
  assume mem: "e \<in> set (deviation_rows out)"
  have out: "out = pipeline_report parse df"
    using assms by (rule upload_csv_Inr)
  have "deviation_rows out = List.map_filter (row_event parse df (baselines out)) (rows df)"
    unfolding out by (simp add: pipeline_report_def Let_def)
  then obtain r where ev: "row_event parse df (baselines out) r = Some e"
    using mem by (auto simp: event_in_devs)
  let ?tr = "filter (row_satisfied parse df (baselines out) (snd r)) canonical_signals"
  have e: "e = \<lparr>row = fst r, signals = join '', '' (map signal_name ?tr), severity = length ?tr\<rparr>"
    and ne: "?tr \<noteq> []"
    using ev by (simp_all add: row_event_Some some_satisfied)
  have "subseq ?tr [heart_rate, spo2, systolic_bp, diastolic_bp]"
    using subseq_filter_left [of "row_satisfied parse df (baselines out) (snd r)" canonical_signals]
    by (simp add: canonical_signals_def)
  moreover have "distinct ?tr" by (simp add: canonical_signals_def)
  moreover have "length ?tr \<le> 4"
    using length_filter_le [of "row_satisfied parse df (baselines out) (snd r)" canonical_signals]
    by (simp add: canonical_signals_def)
  moreover have "1 \<le> length ?tr" using ne by (cases ?tr) simp_all
  ultimately show "\<exists>tr. subseq tr [heart_rate, spo2, systolic_bp, diastolic_bp] \<and> distinct tr \<and>
             signals e = join '', '' (map signal_name tr) \<and>
             severity e = length tr \<and> 1 \<le> severity e \<and> severity e \<le> 4"
    using e by (intro exI [of _ ?tr]) simp
qed

theorem triggered_in_canonical_order_witness:
  "upload_csv example_parse reversed_frame = Inr reversed_report \<and>
   \<lparr>row = Txt ''thu'', signals = ''heart_rate, spo2, systolic_bp, diastolic_bp'', severity = 4\<rparr>
     \<in> set (deviation_rows reversed_report) \<and>
   (\<exists>tr. subseq tr [heart_rate, spo2, systolic_bp, diastolic_bp] \<and> distinct tr \<and>
      signals \<lparr>row = Txt ''thu'', signals = ''heart_rate, spo2, systolic_bp, diastolic_bp'',
               severity = 4\<rparr> = join '', '' (map signal_name tr) \<and>
      severity \<lparr>row = Txt ''thu'', signals = ''heart_rate, spo2, systolic_bp, diastolic_bp'',
                severity = 4\<rparr> = length tr)"
proof -
  let ?e = "\<lparr>row = Txt ''thu'', signals = ''heart_rate, spo2, systolic_bp, diastolic_bp'',
             severity = 4\<rparr>"
  have mem: "?e \<in> set (deviation_rows reversed_report)"
    by (simp add: reversed_report_def)
  from triggered_in_canonical_order [OF reversed_run, rule_format, OF mem]
  obtain tr where "subseq tr [heart_rate, spo2, systolic_bp, diastolic_bp]" "distinct tr"
    "signals ?e = join '', '' (map signal_name tr)" "severity ?e = length tr"
    by blast
  with reversed_run mem show ?thesis by blast
qed


end
